theory Spec2Isabelle
  imports Main "HOL-Library.Word"
begin

section \<open>FIFO adapters over contiguous storage (dmitigr::que)\<close>

text \<open>
  Both adapters keep cursors of type \<open>size_type\<close> (\<open>std::size_t\<close>) into one contiguous
  buffer. \<open>size_type\<close> is an unsigned 64-bit integer: \<open>+\<close> and \<open>-\<close> wrap around.
  Calls whose behaviour the language leaves undefined (a write or a read outside the
  buffer) and calls that throw are the value \<open>None\<close>.
\<close>

type_synonym size_type = "64 word"

subsection \<open>\<open>Fifo_array<T, N>\<close> (fifo_array.hpp)\<close>

text \<open>
  \<open>arr_data\<close> is the member \<open>data_\<close>, a \<open>std::array<T, N>\<close>: a list whose length is \<open>N\<close>.
\<close>

record 'a fifo_array =
  arr_data :: "'a list"
  pop_offset :: size_type
  push_offset :: size_type

text \<open>
  The constructor leaves \<open>data_\<close> default-initialised, so the initial elements are a
  parameter; both offsets start at zero.
\<close>

definition Fifo_array :: "'a list \<Rightarrow> 'a fifo_array" where
  "Fifo_array init = \<lparr>arr_data = init, pop_offset = 0, push_offset = 0\<rparr>"

text \<open>\<open>data_.size()\<close>, the capacity \<open>N\<close> as a \<open>size_type\<close>.\<close>

definition array_capacity :: "'a fifo_array \<Rightarrow> size_type" where
  "array_capacity s = of_nat (length (arr_data s))"

text \<open>\<open>data()\<close>: the storage from \<open>data_.data() + pop_offset_\<close> on.\<close>

definition array_data :: "'a fifo_array \<Rightarrow> 'a list option" where
  "array_data s =
     (if unat (pop_offset s) \<le> length (arr_data s)
      then Some (drop (unat (pop_offset s)) (arr_data s)) else None)"

text \<open>\<open>back()\<close>: \<open>*(data_.begin() + push_offset_ - 1)\<close>.\<close>

definition array_back :: "'a fifo_array \<Rightarrow> 'a option" where
  "array_back s =
     (if 1 \<le> unat (push_offset s) \<and> unat (push_offset s) \<le> length (arr_data s)
      then Some (arr_data s ! (unat (push_offset s) - 1)) else None)"

text \<open>\<open>front()\<close>: \<open>*(data_.begin() + pop_offset_)\<close>.\<close>

definition array_front :: "'a fifo_array \<Rightarrow> 'a option" where
  "array_front s =
     (if unat (pop_offset s) < length (arr_data s)
      then Some (arr_data s ! unat (pop_offset s)) else None)"

text \<open>\<open>push_back\<close>: \<open>data_[push_offset_++] = value\<close>; a write at an index \<open>\<ge> N\<close> is undefined.\<close>

definition array_push_back :: "'a \<Rightarrow> 'a fifo_array \<Rightarrow> 'a fifo_array option" where
  "array_push_back v s =
     (if unat (push_offset s) < length (arr_data s)
      then Some (s\<lparr>arr_data := (arr_data s)[unat (push_offset s) := v],
                   push_offset := push_offset s + 1\<rparr>)
      else None)"

definition array_emplace_back :: "'a \<Rightarrow> 'a fifo_array \<Rightarrow> 'a fifo_array option" where
  "array_emplace_back v s = array_push_back v s"

text \<open>\<open>pop_front\<close>: \<open>pop_offset_ = std::min(pop_offset_ + 1, data_.size())\<close>.\<close>

definition array_pop_front :: "'a fifo_array \<Rightarrow> 'a fifo_array" where
  "array_pop_front s = s\<lparr>pop_offset := min (pop_offset s + 1) (array_capacity s)\<rparr>"

text \<open>\<open>unpop_front\<close>: \<open>if (pop_offset_) --pop_offset_\<close>.\<close>

definition array_unpop_front :: "'a fifo_array \<Rightarrow> 'a fifo_array" where
  "array_unpop_front s =
     (if pop_offset s \<noteq> 0 then s\<lparr>pop_offset := pop_offset s - 1\<rparr> else s)"

definition array_unpop_all :: "'a fifo_array \<Rightarrow> 'a fifo_array" where
  "array_unpop_all s = s\<lparr>pop_offset := 0\<rparr>"

text \<open>\<open>size()\<close>: \<open>push_offset_ - pop_offset_\<close>, an unsigned subtraction.\<close>

definition array_size :: "'a fifo_array \<Rightarrow> size_type" where
  "array_size s = push_offset s - pop_offset s"

text \<open>\<open>empty()\<close>: \<open>!size()\<close>.\<close>

definition array_empty :: "'a fifo_array \<Rightarrow> bool" where
  "array_empty s = (array_size s = 0)"

text \<open>\<open>clear\<close>: \<open>pop_offset_ = push_offset_ = 0\<close>.\<close>

definition array_clear :: "'a fifo_array \<Rightarrow> 'a fifo_array" where
  "array_clear s = s\<lparr>push_offset := 0, pop_offset := 0\<rparr>"

text \<open>
  \<open>swap\<close>: three member-wise swaps, in the order of the source. The pair is
  (\<open>*this\<close>, \<open>other\<close>) after the call.
\<close>

definition array_swap :: "'a fifo_array \<Rightarrow> 'a fifo_array \<Rightarrow> 'a fifo_array \<times> 'a fifo_array" where
  "array_swap this other =
     (let (t1, o1) = (this\<lparr>arr_data := arr_data other\<rparr>, other\<lparr>arr_data := arr_data this\<rparr>);
          (t2, o2) = (t1\<lparr>pop_offset := pop_offset o1\<rparr>, o1\<lparr>pop_offset := pop_offset t1\<rparr>);
          (t3, o3) = (t2\<lparr>push_offset := push_offset o2\<rparr>, o2\<lparr>push_offset := push_offset t2\<rparr>)
      in (t3, o3))"

text \<open>
  The live elements, as a caller reads them through \<open>data()\<close> and \<open>size()\<close>: \<open>size()\<close>
  elements starting at \<open>data()\<close>.
\<close>

definition array_elements :: "'a fifo_array \<Rightarrow> 'a list option" where
  "array_elements s =
     (case array_data s of
        None \<Rightarrow> None
      | Some xs \<Rightarrow> if unat (array_size s) \<le> length xs
                   then Some (take (unat (array_size s)) xs) else None)"

subsection \<open>\<open>Basic_fifo_string<CharT>\<close> (fifo_string.hpp)\<close>

text \<open>
  \<open>str_data\<close> is the member \<open>data_\<close>, a \<open>std::basic_string\<close>; \<open>offset\<close> is \<open>offset_\<close>.
\<close>

record 'a fifo_string =
  str_data :: "'a list"
  offset :: size_type

text \<open>
  The constructor forwards its arguments to the string's constructor, so the initial
  contents are a parameter (\<open>[]\<close> for the default constructor); the offset starts at zero.
\<close>

definition Basic_fifo_string :: "'a list \<Rightarrow> 'a fifo_string" where
  "Basic_fifo_string init = \<lparr>str_data = init, offset = 0\<rparr>"

text \<open>\<open>data_.size()\<close>, the current length as a \<open>size_type\<close>.\<close>

definition string_length :: "'a fifo_string \<Rightarrow> size_type" where
  "string_length s = of_nat (length (str_data s))"

text \<open>\<open>size()\<close>: \<open>data_.size() - offset_\<close>, an unsigned subtraction.\<close>

definition string_size :: "'a fifo_string \<Rightarrow> size_type" where
  "string_size s = string_length s - offset s"

text \<open>\<open>data()\<close>: the storage from \<open>data_.data() + offset_\<close> on.\<close>

definition string_data :: "'a fifo_string \<Rightarrow> 'a list option" where
  "string_data s =
     (if unat (offset s) \<le> length (str_data s)
      then Some (drop (unat (offset s)) (str_data s)) else None)"

text \<open>\<open>view()\<close>: the string view \<open>{data(), size()}\<close>, \<open>size()\<close> elements starting at \<open>data()\<close>.\<close>

definition string_view :: "'a fifo_string \<Rightarrow> 'a list option" where
  "string_view s =
     (case string_data s of
        None \<Rightarrow> None
      | Some xs \<Rightarrow> if unat (string_size s) \<le> length xs
                   then Some (take (unat (string_size s)) xs) else None)"

text \<open>\<open>back()\<close>: \<open>data_.back()\<close>, undefined on an empty string.\<close>

definition string_back :: "'a fifo_string \<Rightarrow> 'a option" where
  "string_back s = (if str_data s = [] then None else Some (last (str_data s)))"

text \<open>\<open>front()\<close>: \<open>*(data_.begin() + offset_)\<close>.\<close>

definition string_front :: "'a fifo_string \<Rightarrow> 'a option" where
  "string_front s =
     (if unat (offset s) < length (str_data s)
      then Some (str_data s ! unat (offset s)) else None)"

text \<open>
  \<open>push_back\<close>: \<open>data_.push_back(value)\<close>. The string throws \<open>std::length_error\<close> instead
  of growing beyond its \<open>max_size()\<close>; that constant of the standard library is the
  parameter \<open>max_size\<close>.
\<close>

definition string_push_back :: "nat \<Rightarrow> 'a \<Rightarrow> 'a fifo_string \<Rightarrow> 'a fifo_string option" where
  "string_push_back max_size v s =
     (if length (str_data s) < max_size
      then Some (s\<lparr>str_data := str_data s @ [v]\<rparr>) else None)"

definition string_emplace_back :: "nat \<Rightarrow> 'a \<Rightarrow> 'a fifo_string \<Rightarrow> 'a fifo_string option" where
  "string_emplace_back max_size v s = string_push_back max_size v s"

text \<open>\<open>pop_front\<close>: \<open>offset_ = std::min(offset_ + 1, data_.size())\<close>.\<close>

definition string_pop_front :: "'a fifo_string \<Rightarrow> 'a fifo_string" where
  "string_pop_front s = s\<lparr>offset := min (offset s + 1) (string_length s)\<rparr>"

text \<open>\<open>unpop_front\<close>: \<open>if (offset_) --offset_\<close>.\<close>

definition string_unpop_front :: "'a fifo_string \<Rightarrow> 'a fifo_string" where
  "string_unpop_front s = (if offset s \<noteq> 0 then s\<lparr>offset := offset s - 1\<rparr> else s)"

definition string_unpop_all :: "'a fifo_string \<Rightarrow> 'a fifo_string" where
  "string_unpop_all s = s\<lparr>offset := 0\<rparr>"

text \<open>\<open>empty()\<close>: \<open>!size()\<close>.\<close>

definition string_empty :: "'a fifo_string \<Rightarrow> bool" where
  "string_empty s = (string_size s = 0)"

text \<open>\<open>clear\<close>: \<open>data_.clear(); offset_ = 0\<close>.\<close>

definition string_clear :: "'a fifo_string \<Rightarrow> 'a fifo_string" where
  "string_clear s = s\<lparr>str_data := [], offset := 0\<rparr>"

text \<open>\<open>swap\<close>: two member-wise swaps; the pair is (\<open>*this\<close>, \<open>other\<close>) after the call.\<close>

definition string_swap :: "'a fifo_string \<Rightarrow> 'a fifo_string \<Rightarrow> 'a fifo_string \<times> 'a fifo_string" where
  "string_swap this other =
     (let (t1, o1) = (this\<lparr>str_data := str_data other\<rparr>, other\<lparr>str_data := str_data this\<rparr>);
          (t2, o2) = (t1\<lparr>offset := offset o1\<rparr>, o1\<lparr>offset := offset t1\<rparr>)
      in (t2, o2))"

subsection \<open>Sequences of calls\<close>

text \<open>
  The mutating member functions as commands, and a run of commands on one adapter. A
  run stops with \<open>None\<close> at the first call that is undefined or throws.
\<close>

datatype 'a fifo_op = Push_back 'a | Pop_front | Unpop_front | Unpop_all | Clear

fun array_step :: "'a fifo_op \<Rightarrow> 'a fifo_array \<Rightarrow> 'a fifo_array option" where
  "array_step (Push_back v) s = array_push_back v s"
| "array_step Pop_front s = Some (array_pop_front s)"
| "array_step Unpop_front s = Some (array_unpop_front s)"
| "array_step Unpop_all s = Some (array_unpop_all s)"
| "array_step Clear s = Some (array_clear s)"

fun array_run :: "'a fifo_op list \<Rightarrow> 'a fifo_array \<Rightarrow> 'a fifo_array option" where
  "array_run [] s = Some s"
| "array_run (c # cs) s =
     (case array_step c s of None \<Rightarrow> None | Some s' \<Rightarrow> array_run cs s')"

fun string_step :: "nat \<Rightarrow> 'a fifo_op \<Rightarrow> 'a fifo_string \<Rightarrow> 'a fifo_string option" where
  "string_step max_size (Push_back v) s = string_push_back max_size v s"
| "string_step max_size Pop_front s = Some (string_pop_front s)"
| "string_step max_size Unpop_front s = Some (string_unpop_front s)"
| "string_step max_size Unpop_all s = Some (string_unpop_all s)"
| "string_step max_size Clear s = Some (string_clear s)"

fun string_run :: "nat \<Rightarrow> 'a fifo_op list \<Rightarrow> 'a fifo_string \<Rightarrow> 'a fifo_string option" where
  "string_run max_size [] s = Some s"
| "string_run max_size (c # cs) s =
     (case string_step max_size c s of None \<Rightarrow> None | Some s' \<Rightarrow> string_run max_size cs s')"

text \<open>
  Two adapters side by side: a command runs on the left or on the right one, or the two
  are swapped (\<open>lhs.swap(rhs)\<close>).
\<close>

datatype 'a pair_op = On_lhs "'a fifo_op" | On_rhs "'a fifo_op" | Swap

fun string_pair_step ::
  "nat \<Rightarrow> 'a pair_op \<Rightarrow> 'a fifo_string \<times> 'a fifo_string \<Rightarrow> ('a fifo_string \<times> 'a fifo_string) option"
where
  "string_pair_step max_size (On_lhs c) (a, b) =
     (case string_step max_size c a of None \<Rightarrow> None | Some a' \<Rightarrow> Some (a', b))"
| "string_pair_step max_size (On_rhs c) (a, b) =
     (case string_step max_size c b of None \<Rightarrow> None | Some b' \<Rightarrow> Some (a, b'))"
| "string_pair_step max_size Swap (a, b) = Some (string_swap a b)"

fun string_pair_run ::
  "nat \<Rightarrow> 'a pair_op list \<Rightarrow> 'a fifo_string \<times> 'a fifo_string \<Rightarrow> ('a fifo_string \<times> 'a fifo_string) option"
where
  "string_pair_run max_size [] p = Some p"
| "string_pair_run max_size (c # cs) p =
     (case string_pair_step max_size c p of
        None \<Rightarrow> None
      | Some p' \<Rightarrow> string_pair_run max_size cs p')"

subsection \<open>Bounds on the cursors\<close>

text \<open>
  The order of the cursors that the data model of the fixed adapter states:
  \<open>0 \<le> pop_offset \<le> push_offset \<le> N\<close>.
\<close>

definition array_inv :: "'a fifo_array \<Rightarrow> bool" where
  "array_inv s =
     (unat (pop_offset s) \<le> unat (push_offset s)
      \<and> unat (push_offset s) \<le> length (arr_data s))"

text \<open>
  The bound of the growable adapter: \<open>offset \<le> length(storage)\<close>, where a string is never
  longer than its \<open>max_size()\<close>.
\<close>

definition string_inv :: "nat \<Rightarrow> 'a fifo_string \<Rightarrow> bool" where
  "string_inv max_size s =
     (unat (offset s) \<le> length (str_data s) \<and> length (str_data s) \<le> max_size)"

section \<open>Arithmetic of \<open>size_type\<close>\<close>

lemma unat_size_type_less: "unat (x :: size_type) < 2 ^ 64"
  using unsigned_less [of x, where ?'a = nat] by simp

lemma unat_of_nat_size_type: "n < 2 ^ 64 \<Longrightarrow> unat (of_nat n :: size_type) = n"
  by (simp add: unat_of_nat)

lemma unat_succ_size_type:
  "unat (x :: size_type) + 1 < 2 ^ 64 \<Longrightarrow> unat (x + 1) = unat x + 1"
  by (simp add: unat_add_lem [THEN iffD1])

lemma unat_min_size_type: "unat (min x y :: size_type) = min (unat x) (unat y)"
  by (simp add: min_def word_le_nat_alt)

lemma unat_pred_size_type: "(x :: size_type) \<noteq> 0 \<Longrightarrow> unat (x - 1) = unat x - 1"
  by (simp add: unat_minus_one)

lemma unat_diff_size_type:
  "unat (y :: size_type) \<le> unat x \<Longrightarrow> unat (x - y) = unat x - unat y"
  by (simp add: unat_sub word_le_nat_alt)


section \<open>The clamp of \<open>pop_front\<close>\<close>

lemma unat_array_pop_front:
  assumes "length (arr_data s) < 2 ^ 64" and "unat (pop_offset s) + 1 < 2 ^ 64"
  shows "unat (pop_offset (array_pop_front s)) = min (unat (pop_offset s) + 1) (length (arr_data s))"
  using assms
  by (simp add: array_pop_front_def array_capacity_def unat_min_size_type
      unat_succ_size_type unat_of_nat_size_type)

lemma unat_string_pop_front:
  assumes "length (str_data s) < 2 ^ 64" and "unat (offset s) + 1 < 2 ^ 64"
  shows "unat (offset (string_pop_front s)) = min (unat (offset s) + 1) (length (str_data s))"
  using assms
  by (simp add: string_pop_front_def string_length_def unat_min_size_type
      unat_succ_size_type unat_of_nat_size_type)

lemma array_pop_front_empty_overshoots:
  assumes N: "length (arr_data s) < 2 ^ 64"
    and e: "array_empty s"
    and room: "unat (push_offset s) < length (arr_data s)"
  shows "push_offset (array_pop_front s) < pop_offset (array_pop_front s)"
proof -
  from e have eq: "pop_offset s = push_offset s"
    by (simp add: array_empty_def array_size_def)
  from room N have small: "unat (pop_offset s) + 1 < 2 ^ 64"
    by (simp add: eq)
  have "unat (pop_offset (array_pop_front s)) = unat (push_offset s) + 1"
    using unat_array_pop_front [OF N small] room by (simp add: eq)
  moreover have "push_offset (array_pop_front s) = push_offset s"
    by (simp add: array_pop_front_def)
  ultimately show ?thesis
    by (simp add: word_less_nat_alt)
qed

text \<open>
  C1. In the fixed adapter \<open>pop_front\<close> sets the pop offset to \<open>min(pop_offset + 1, N)\<close>,
  with \<open>N\<close> the capacity and not \<open>push_offset\<close>: the call is defined in every state, and on
  an empty adapter with room left it leaves \<open>pop_offset\<close> greater than \<open>push_offset\<close>. In
  the growable adapter \<open>pop_front\<close> sets \<open>offset\<close> to \<open>min(offset + 1, length(storage))\<close>.
  The equations hold on \<open>size_type\<close> in every state, and on the natural numbers wherever
  \<open>offset + 1\<close> does not wrap around.
\<close>

theorem pop_front_clamps_to_storage_size:
  "pop_offset (array_pop_front s) = min (pop_offset s + 1) (array_capacity s)
   \<and> array_step Pop_front s = Some (array_pop_front s)
   \<and> (length (arr_data s) < 2 ^ 64 \<and> unat (pop_offset s) + 1 < 2 ^ 64 \<longrightarrow>
        unat (pop_offset (array_pop_front s))
          = min (unat (pop_offset s) + 1) (length (arr_data s)))
   \<and> (length (arr_data s) < 2 ^ 64 \<and> array_empty s
        \<and> unat (push_offset s) < length (arr_data s) \<longrightarrow>
        push_offset (array_pop_front s) < pop_offset (array_pop_front s))
   \<and> offset (string_pop_front t) = min (offset t + 1) (string_length t)
   \<and> (length (str_data t) < 2 ^ 64 \<and> unat (offset t) + 1 < 2 ^ 64 \<longrightarrow>
        unat (offset (string_pop_front t))
          = min (unat (offset t) + 1) (length (str_data t)))"
  using unat_array_pop_front [of s] array_pop_front_empty_overshoots [of s]
    unat_string_pop_front [of t]
  by (simp add: array_pop_front_def string_pop_front_def)

theorem pop_front_clamps_to_storage_size_witness:
  "array_empty (Fifo_array [7, 7, 7, 7 :: int])
   \<and> array_step Pop_front (Fifo_array [7, 7, 7, 7 :: int])
       = Some \<lparr>arr_data = [7, 7, 7, 7], pop_offset = 1, push_offset = 0\<rparr>
   \<and> unat (pop_offset (array_pop_front (Fifo_array [7, 7, 7, 7 :: int]))) = min (0 + 1) 4
   \<and> push_offset (array_pop_front (Fifo_array [7, 7, 7, 7 :: int]))
       < pop_offset (array_pop_front (Fifo_array [7, 7, 7, 7 :: int]))
   \<and> unat (offset (string_pop_front (Basic_fifo_string ''ab''))) = min (0 + 1) 2"
  using pop_front_clamps_to_storage_size
    [of "Fifo_array [7, 7, 7, 7 :: int]" "Basic_fifo_string ''ab''"]
  by (simp add: Fifo_array_def Basic_fifo_string_def array_empty_def array_size_def
      array_pop_front_def array_capacity_def string_pop_front_def string_length_def)

section \<open>The order of the cursors of the fixed adapter\<close>

text \<open>
  The order \<open>pop_offset \<le> push_offset \<le> N\<close> holds after construction and is kept by
  \<open>push_back\<close>, \<open>unpop_front\<close>, \<open>unpop_all\<close>, \<open>clear\<close> and by \<open>pop_front\<close> on a non-empty
  adapter. \<open>pop_front\<close> on an empty adapter with room left loses it.
\<close>

lemma array_inv_Fifo_array: "array_inv (Fifo_array init)"
  by (simp add: array_inv_def Fifo_array_def)

lemma array_inv_push_back:
  assumes "length (arr_data s) < 2 ^ 64" and "array_inv s" and "array_push_back v s = Some s'"
  shows "array_inv s'"
proof -
  from assms(3) have room: "unat (push_offset s) < length (arr_data s)"
    and s': "s' = s\<lparr>arr_data := (arr_data s)[unat (push_offset s) := v],
                     push_offset := push_offset s + 1\<rparr>"
    by (auto simp: array_push_back_def split: if_splits)
  from room assms(1) have "unat (push_offset s + 1) = unat (push_offset s) + 1"
    by (simp add: unat_succ_size_type)
  with room assms(2) show ?thesis
    by (simp add: s' array_inv_def)
qed

lemma array_inv_pop_front_nonempty:
  assumes N: "length (arr_data s) < 2 ^ 64" and inv: "array_inv s" and ne: "\<not> array_empty s"
  shows "array_inv (array_pop_front s)"
proof -
  from ne have "pop_offset s \<noteq> push_offset s"
    by (simp add: array_empty_def array_size_def)
  then have "unat (pop_offset s) \<noteq> unat (push_offset s)"
    by (simp add: word_unat_eq_iff)
  with inv have lt: "unat (pop_offset s) < unat (push_offset s)"
    by (simp add: array_inv_def)
  then have "unat (pop_offset s) + 1 < 2 ^ 64"
    using unat_size_type_less [of "push_offset s"] by simp
  from unat_array_pop_front [OF N this] lt inv show ?thesis
    by (simp add: array_inv_def array_pop_front_def)
qed

lemma array_inv_unpop_front: "array_inv s \<Longrightarrow> array_inv (array_unpop_front s)"
  by (auto simp: array_inv_def array_unpop_front_def unat_pred_size_type)

lemma array_inv_unpop_all: "array_inv s \<Longrightarrow> array_inv (array_unpop_all s)"
  by (simp add: array_inv_def array_unpop_all_def)

lemma array_inv_clear: "array_inv (array_clear s)"
  by (simp add: array_inv_def array_clear_def)

lemma array_inv_pop_front_empty:
  assumes "length (arr_data s) < 2 ^ 64" and "array_empty s"
    and "unat (push_offset s) < length (arr_data s)"
  shows "\<not> array_inv (array_pop_front s)"
  using array_pop_front_empty_overshoots [OF assms]
  by (simp add: array_inv_def word_less_nat_alt)

text \<open>
  C2 states that \<open>0 \<le> pop_offset \<le> push_offset \<le> N\<close> is kept by every operation of the
  fixed adapter. \<open>pop_front\<close> on a freshly constructed adapter of capacity 4 moves the pop
  offset to 1 while the push offset is 0: the order is lost, \<open>size()\<close> wraps around to
  \<open>2^64 - 1\<close> and \<open>empty()\<close> is false. The same call on the growable adapter, whose clamp is
  the live end, changes nothing.
\<close>

theorem array_pop_front_on_fresh_breaks_order:
  "array_inv (Fifo_array [0, 0, 0, 0 :: int])
   \<and> array_step Pop_front (Fifo_array [0, 0, 0, 0 :: int])
       = Some \<lparr>arr_data = [0, 0, 0, 0], pop_offset = 1, push_offset = 0\<rparr>
   \<and> \<not> array_inv (array_pop_front (Fifo_array [0, 0, 0, 0 :: int]))
   \<and> array_size (array_pop_front (Fifo_array [0, 0, 0, 0 :: int])) = 18446744073709551615
   \<and> \<not> array_empty (array_pop_front (Fifo_array [0, 0, 0, 0 :: int]))
   \<and> string_pop_front (Basic_fifo_string ([] :: int list)) = Basic_fifo_string []"
  by (simp add: array_inv_def Fifo_array_def array_pop_front_def array_capacity_def
      array_size_def array_empty_def string_pop_front_def Basic_fifo_string_def
      string_length_def)

section \<open>The scenario of the growable adapter\<close>

text \<open>
  After the pushes of \<open>a\<close>, \<open>b\<close>, \<open>c\<close> and two calls of \<open>pop_front\<close> the view is \<open>c\<close> and
  \<open>size()\<close> is 1, not 2 (here with \<open>max_size() = 2^62 - 1\<close>).
\<close>

theorem string_scenario_size_after_two_pops_is_not_2:
  "string_run 4611686018427387903
     [Push_back CHR ''a'', Push_back CHR ''b'', Push_back CHR ''c'', Pop_front, Pop_front]
     (Basic_fifo_string []) = Some \<lparr>str_data = ''abc'', offset = 2\<rparr>
   \<and> string_view \<lparr>str_data = ''abc'', offset = 2\<rparr> = Some ''c''
   \<and> string_size \<lparr>str_data = ''abc'', offset = 2\<rparr> = 1
   \<and> string_size \<lparr>str_data = ''abc'', offset = 2\<rparr> \<noteq> 2"
  by (simp add: Basic_fifo_string_def string_push_back_def string_pop_front_def
      string_size_def string_length_def string_view_def string_data_def)

text \<open>
  C3, amended. Starting from an empty growable adapter of characters (whose string may
  hold three characters), after \<open>push_back\<close> of \<open>a\<close>, \<open>b\<close>, \<open>c\<close> the view is \<open>abc\<close>; after
  two calls of \<open>pop_front\<close> the view is \<open>c\<close> and \<open>size()\<close> is 1; after \<open>unpop_all\<close> the view
  is \<open>abc\<close> and \<open>size()\<close> is 3; after \<open>clear\<close>, \<open>size()\<close> is 0 and the view is empty.
\<close>

theorem string_scenario:
  assumes "3 \<le> max_size"
  shows
  "map_option string_view
     (string_run max_size [Push_back CHR ''a'', Push_back CHR ''b'', Push_back CHR ''c'']
        (Basic_fifo_string [])) = Some (Some ''abc'')
   \<and> map_option string_view
       (string_run max_size
          [Push_back CHR ''a'', Push_back CHR ''b'', Push_back CHR ''c'', Pop_front, Pop_front]
          (Basic_fifo_string [])) = Some (Some ''c'')
   \<and> map_option string_size
       (string_run max_size
          [Push_back CHR ''a'', Push_back CHR ''b'', Push_back CHR ''c'', Pop_front, Pop_front]
          (Basic_fifo_string [])) = Some 1
   \<and> map_option string_view
       (string_run max_size
          [Push_back CHR ''a'', Push_back CHR ''b'', Push_back CHR ''c'', Pop_front, Pop_front,
           Unpop_all]
          (Basic_fifo_string [])) = Some (Some ''abc'')
   \<and> map_option string_size
       (string_run max_size
          [Push_back CHR ''a'', Push_back CHR ''b'', Push_back CHR ''c'', Pop_front, Pop_front,
           Unpop_all]
          (Basic_fifo_string [])) = Some 3
   \<and> map_option string_size
       (string_run max_size
          [Push_back CHR ''a'', Push_back CHR ''b'', Push_back CHR ''c'', Pop_front, Pop_front,
           Unpop_all, Clear]
          (Basic_fifo_string [])) = Some 0
   \<and> map_option string_view
       (string_run max_size
          [Push_back CHR ''a'', Push_back CHR ''b'', Push_back CHR ''c'', Pop_front, Pop_front,
           Unpop_all, Clear]
          (Basic_fifo_string [])) = Some (Some '''')"
  using assms
  by (simp add: Basic_fifo_string_def string_push_back_def string_pop_front_def
      string_unpop_all_def string_clear_def string_view_def string_data_def
      string_size_def string_length_def)

theorem string_scenario_witness:
  "(3::nat) \<le> 1000
   \<and> map_option string_view
       (string_run 1000
          [Push_back CHR ''a'', Push_back CHR ''b'', Push_back CHR ''c'', Pop_front, Pop_front]
          (Basic_fifo_string [])) = Some (Some ''c'')
   \<and> map_option string_size
       (string_run 1000
          [Push_back CHR ''a'', Push_back CHR ''b'', Push_back CHR ''c'', Pop_front, Pop_front]
          (Basic_fifo_string [])) = Some 1"
  using string_scenario [of 1000] by simp

section \<open>Undoing pops\<close>

lemma array_round_trip:
  assumes N: "length (arr_data s) < 2 ^ 64"
    and live: "unat (pop_offset s) < unat (push_offset s)"
    and cap: "unat (push_offset s) \<le> length (arr_data s)"
  shows "array_unpop_front (array_pop_front s) = s"
proof -
  have small: "unat (pop_offset s) + 1 < 2 ^ 64"
    using live unat_size_type_less [of "push_offset s"] by simp
  have u: "unat (pop_offset s + 1) = unat (pop_offset s) + 1"
    by (rule unat_succ_size_type [OF small])
  have "unat (pop_offset s + 1) \<le> unat (array_capacity s)"
    using live cap N by (simp add: u array_capacity_def unat_of_nat_size_type)
  then have le: "pop_offset s + 1 \<le> array_capacity s"
    by (simp add: word_le_nat_alt)
  have nz: "pop_offset s + 1 \<noteq> 0"
    using u by (metis Suc_eq_plus1 nat.distinct(1) unat_0)
  show ?thesis
    using le nz by (simp add: array_pop_front_def array_unpop_front_def min_def)
qed

lemma string_round_trip:
  assumes N: "length (str_data s) < 2 ^ 64"
    and live: "unat (offset s) < length (str_data s)"
  shows "string_unpop_front (string_pop_front s) = s"
proof -
  have small: "unat (offset s) + 1 < 2 ^ 64"
    using live N by simp
  have u: "unat (offset s + 1) = unat (offset s) + 1"
    by (rule unat_succ_size_type [OF small])
  have "unat (offset s + 1) \<le> unat (string_length s)"
    using live N by (simp add: u string_length_def unat_of_nat_size_type)
  then have le: "offset s + 1 \<le> string_length s"
    by (simp add: word_le_nat_alt)
  have nz: "offset s + 1 \<noteq> 0"
    using u by (metis Suc_eq_plus1 nat.distinct(1) unat_0)
  show ?thesis
    using le nz by (simp add: string_pop_front_def string_unpop_front_def min_def)
qed

text \<open>
  C4. For every state of either adapter that holds a live element (the pop cursor is
  below the live end, so one pop is valid), \<open>pop_front\<close> immediately followed by
  \<open>unpop_front\<close> restores \<open>size()\<close> and \<open>front()\<close> to their values before the pop; indeed
  the whole state is restored.
\<close>

theorem pop_then_unpop_round_trip:
  "(length (arr_data s) < 2 ^ 64 \<and> unat (pop_offset s) < unat (push_offset s)
      \<and> unat (push_offset s) \<le> length (arr_data s) \<longrightarrow>
      \<not> array_empty s
      \<and> array_size (array_unpop_front (array_pop_front s)) = array_size s
      \<and> array_front (array_unpop_front (array_pop_front s)) = array_front s
      \<and> array_front s = Some (arr_data s ! unat (pop_offset s))
      \<and> array_unpop_front (array_pop_front s) = s)
   \<and> (length (str_data t) < 2 ^ 64 \<and> unat (offset t) < length (str_data t) \<longrightarrow>
      \<not> string_empty t
      \<and> string_size (string_unpop_front (string_pop_front t)) = string_size t
      \<and> string_front (string_unpop_front (string_pop_front t)) = string_front t
      \<and> string_front t = Some (str_data t ! unat (offset t))
      \<and> string_unpop_front (string_pop_front t) = t)"
proof (intro conjI impI)
  assume a: "length (arr_data s) < 2 ^ 64 \<and> unat (pop_offset s) < unat (push_offset s)
      \<and> unat (push_offset s) \<le> length (arr_data s)"
  then have rt: "array_unpop_front (array_pop_front s) = s"
    by (simp add: array_round_trip)
  show "array_unpop_front (array_pop_front s) = s" by (rule rt)
  show "array_size (array_unpop_front (array_pop_front s)) = array_size s"
    by (simp add: rt)
  show "array_front (array_unpop_front (array_pop_front s)) = array_front s"
    by (simp add: rt)
  show "array_front s = Some (arr_data s ! unat (pop_offset s))"
    using a by (simp add: array_front_def)
  from a have "pop_offset s \<noteq> push_offset s" by auto
  then show "\<not> array_empty s"
    by (simp add: array_empty_def array_size_def)
next
  assume b: "length (str_data t) < 2 ^ 64 \<and> unat (offset t) < length (str_data t)"
  then have rt: "string_unpop_front (string_pop_front t) = t"
    by (simp add: string_round_trip)
  show "string_unpop_front (string_pop_front t) = t" by (rule rt)
  show "string_size (string_unpop_front (string_pop_front t)) = string_size t"
    by (simp add: rt)
  show "string_front (string_unpop_front (string_pop_front t)) = string_front t"
    by (simp add: rt)
  show "string_front t = Some (str_data t ! unat (offset t))"
    using b by (simp add: string_front_def)
  from b have "unat (string_length t) \<noteq> unat (offset t)"
    by (simp add: string_length_def unat_of_nat_size_type)
  then have "string_length t \<noteq> offset t" by auto
  then show "\<not> string_empty t"
    by (simp add: string_empty_def string_size_def)
qed

theorem pop_then_unpop_round_trip_witness:
  "array_size \<lparr>arr_data = [1, 2, 3, 0 :: int], pop_offset = 1, push_offset = 3\<rparr> = 2
   \<and> array_size (array_unpop_front (array_pop_front
        \<lparr>arr_data = [1, 2, 3, 0 :: int], pop_offset = 1, push_offset = 3\<rparr>)) = 2
   \<and> array_front (array_unpop_front (array_pop_front
        \<lparr>arr_data = [1, 2, 3, 0 :: int], pop_offset = 1, push_offset = 3\<rparr>)) = Some 2
   \<and> string_size (string_unpop_front (string_pop_front
        \<lparr>str_data = ''abc'', offset = 2\<rparr>)) = 1
   \<and> string_front (string_unpop_front (string_pop_front
        \<lparr>str_data = ''abc'', offset = 2\<rparr>)) = Some CHR ''c''"
  using pop_then_unpop_round_trip
    [of "\<lparr>arr_data = [1, 2, 3, 0 :: int], pop_offset = 1, push_offset = 3\<rparr>"
        "\<lparr>str_data = ''abc'', offset = 2\<rparr>"]
  by (simp add: array_size_def array_front_def string_size_def string_length_def
      string_front_def)

section \<open>Runs of pushes and pops\<close>

lemma array_run_append:
  "array_run (cs @ ds) s = (case array_run cs s of None \<Rightarrow> None | Some s' \<Rightarrow> array_run ds s')"
  by (induction cs arbitrary: s) (auto split: option.splits)

lemma string_run_append:
  "string_run m (cs @ ds) s =
     (case string_run m cs s of None \<Rightarrow> None | Some s' \<Rightarrow> string_run m ds s')"
  by (induction cs arbitrary: s) (auto split: option.splits)

lemma array_run_pushes:
  assumes "length d < 2 ^ 64" and "unat pu + length vs \<le> length d"
  shows "array_run (map Push_back vs) \<lparr>arr_data = d, pop_offset = po, push_offset = pu\<rparr> =
     Some \<lparr>arr_data = take (unat pu) d @ vs @ drop (unat pu + length vs) d,
           pop_offset = po, push_offset = pu + of_nat (length vs)\<rparr>"
  using assms
proof (induction vs arbitrary: d pu)
  case Nil
  then show ?case by simp
next
  case (Cons v vs)
  from Cons.prems have room: "unat pu < length d" by simp
  with Cons.prems(1) have u: "unat (pu + 1) = unat pu + 1"
    by (simp add: unat_succ_size_type)
  have step: "array_push_back v \<lparr>arr_data = d, pop_offset = po, push_offset = pu\<rparr>
      = Some \<lparr>arr_data = d[unat pu := v], pop_offset = po, push_offset = pu + 1\<rparr>"
    using room by (simp add: array_push_back_def)
  have n1: "length (d[unat pu := v]) < 2 ^ 64"
    using Cons.prems(1) by simp
  have n2: "unat (pu + 1) + length vs \<le> length (d[unat pu := v])"
    using Cons.prems(2) by (simp add: u)
  have tk: "take (unat pu + 1) (d[unat pu := v]) = take (unat pu) d @ [v]"
    using room by (simp add: take_Suc_conv_app_nth)
  have dr: "drop (unat pu + 1 + length vs) (d[unat pu := v])
      = drop (unat pu + length (v # vs)) d"
    by (simp add: add.commute)
  have off: "pu + 1 + of_nat (length vs) = pu + of_nat (length (v # vs))"
    by simp
  have "array_run (map Push_back vs)
        \<lparr>arr_data = d[unat pu := v], pop_offset = po, push_offset = pu + 1\<rparr> =
      Some \<lparr>arr_data = take (unat pu) d @ (v # vs) @ drop (unat pu + length (v # vs)) d,
            pop_offset = po, push_offset = pu + of_nat (length (v # vs))\<rparr>"
    unfolding Cons.IH [OF n1 n2] u tk dr off by simp
  then show ?case
    using step by simp
qed

lemma array_run_pops:
  "array_run (replicate k Pop_front) s = Some ((array_pop_front ^^ k) s)"
  by (induction k arbitrary: s) (simp_all add: funpow_swap1)

lemma array_pops_frame:
  "push_offset ((array_pop_front ^^ k) s) = push_offset s
   \<and> arr_data ((array_pop_front ^^ k) s) = arr_data s"
  by (induction k) (simp_all add: array_pop_front_def)

lemma string_run_pushes:
  assumes "length (str_data s) + length vs \<le> m"
  shows "string_run m (map Push_back vs) s = Some (s\<lparr>str_data := str_data s @ vs\<rparr>)"
  using assms
proof (induction vs arbitrary: s)
  case Nil
  then show ?case by simp
next
  case (Cons v vs)
  then show ?case by (simp add: string_push_back_def)
qed

lemma string_run_pops:
  "string_run m (replicate k Pop_front) s = Some ((string_pop_front ^^ k) s)"
  by (induction k arbitrary: s) (simp_all add: funpow_swap1)

lemma string_pops_frame: "str_data ((string_pop_front ^^ k) s) = str_data s"
  by (induction k) (simp_all add: string_pop_front_def)

lemma array_unpop_all_after_pushes:
  assumes N: "length (arr_data s0) < 2 ^ 64"
    and fresh: "pop_offset s0 = 0 \<and> push_offset s0 = 0"
    and cap: "length vs \<le> length (arr_data s0)"
  shows "\<exists>s. array_run (map Push_back vs @ replicate k Pop_front @ [Unpop_all]) s0 = Some s
     \<and> array_size s = of_nat (length vs) \<and> unat (array_size s) = length vs
     \<and> array_elements s = Some vs"
proof -
  let ?s1 = "s0\<lparr>arr_data := vs @ drop (length vs) (arr_data s0),
                 push_offset := of_nat (length vs)\<rparr>"
  let ?s = "array_unpop_all ((array_pop_front ^^ k) ?s1)"
  have r1: "array_run (map Push_back vs) s0 = Some ?s1"
    using array_run_pushes [of "arr_data s0" 0 vs "pop_offset s0"] N cap fresh
    by (cases s0) simp
  have run: "array_run (map Push_back vs @ replicate k Pop_front @ [Unpop_all]) s0 = Some ?s"
    by (simp add: array_run_append r1 array_run_pops)
  have po: "pop_offset ?s = 0"
    by (simp add: array_unpop_all_def)
  have pu: "push_offset ?s = of_nat (length vs)"
    using array_pops_frame [of k ?s1] by (simp add: array_unpop_all_def)
  have da: "arr_data ?s = vs @ drop (length vs) (arr_data s0)"
    using array_pops_frame [of k ?s1] by (simp add: array_unpop_all_def)
  have sz: "array_size ?s = of_nat (length vs)"
    by (simp add: array_size_def po pu)
  have len: "length vs < 2 ^ 64"
    using N cap by simp
  have usz: "unat (array_size ?s) = length vs"
    by (simp add: sz unat_of_nat_size_type [OF len])
  have el: "array_elements ?s = Some vs"
    by (simp add: array_elements_def array_data_def po da usz)
  from run sz usz el show ?thesis by blast
qed

lemma string_unpop_all_after_pushes:
  assumes N: "m < 2 ^ 64"
    and fresh: "str_data s0 = [] \<and> offset s0 = 0"
    and cap: "length vs \<le> m"
  shows "\<exists>s. string_run m (map Push_back vs @ replicate k Pop_front @ [Unpop_all]) s0 = Some s
     \<and> string_size s = of_nat (length vs) \<and> unat (string_size s) = length vs
     \<and> string_view s = Some vs"
proof -
  let ?s1 = "s0\<lparr>str_data := vs\<rparr>"
  let ?s = "string_unpop_all ((string_pop_front ^^ k) ?s1)"
  have r1: "string_run m (map Push_back vs) s0 = Some ?s1"
    using string_run_pushes [of s0 vs m] cap fresh by simp
  have run: "string_run m (map Push_back vs @ replicate k Pop_front @ [Unpop_all]) s0 = Some ?s"
    by (simp add: string_run_append r1 string_run_pops)
  have po: "offset ?s = 0"
    by (simp add: string_unpop_all_def)
  have da: "str_data ?s = vs"
    using string_pops_frame [of k ?s1] by (simp add: string_unpop_all_def)
  have sz: "string_size ?s = of_nat (length vs)"
    by (simp add: string_size_def string_length_def po da)
  have len: "length vs < 2 ^ 64"
    using N cap by simp
  have usz: "unat (string_size ?s) = length vs"
    by (simp add: sz unat_of_nat_size_type [OF len])
  have el: "string_view ?s = Some vs"
    by (simp add: string_view_def string_data_def po da usz)
  from run sz usz el show ?thesis by blast
qed

text \<open>
  C5. For every state of either adapter reached from construction or from the last
  \<open>clear()\<close> by \<open>p\<close> calls of \<open>push_back\<close> (at most the capacity for the fixed adapter)
  followed by any number of calls of \<open>pop_front\<close>, \<open>unpop_all\<close> makes \<open>size()\<close> equal to \<open>p\<close>,
  and the live elements are again exactly the pushed values, in order from the front.
\<close>

theorem unpop_all_restores_all_pushed:
  "(length (arr_data a0) < 2 ^ 64 \<and> (a0 = Fifo_array init \<or> a0 = array_clear a')
      \<and> length vs \<le> length (arr_data a0) \<longrightarrow>
      (\<exists>a. array_run (map Push_back vs @ replicate k Pop_front @ [Unpop_all]) a0 = Some a
         \<and> unat (array_size a) = length vs \<and> array_elements a = Some vs))
   \<and> (m < 2 ^ 64 \<and> (b0 = Basic_fifo_string [] \<or> b0 = string_clear b')
      \<and> length ws \<le> m \<longrightarrow>
      (\<exists>b. string_run m (map Push_back ws @ replicate j Pop_front @ [Unpop_all]) b0 = Some b
         \<and> unat (string_size b) = length ws \<and> string_view b = Some ws))"
proof (intro conjI impI)
  assume h: "length (arr_data a0) < 2 ^ 64 \<and> (a0 = Fifo_array init \<or> a0 = array_clear a')
      \<and> length vs \<le> length (arr_data a0)"
  then have "pop_offset a0 = 0 \<and> push_offset a0 = 0"
    by (auto simp: Fifo_array_def array_clear_def)
  with h show "\<exists>a. array_run (map Push_back vs @ replicate k Pop_front @ [Unpop_all]) a0 = Some a
         \<and> unat (array_size a) = length vs \<and> array_elements a = Some vs"
    using array_unpop_all_after_pushes [of a0 vs k] by blast
next
  assume h: "m < 2 ^ 64 \<and> (b0 = Basic_fifo_string [] \<or> b0 = string_clear b')
      \<and> length ws \<le> m"
  then have "str_data b0 = [] \<and> offset b0 = 0"
    by (auto simp: Basic_fifo_string_def string_clear_def)
  with h show "\<exists>b. string_run m (map Push_back ws @ replicate j Pop_front @ [Unpop_all]) b0 = Some b
         \<and> unat (string_size b) = length ws \<and> string_view b = Some ws"
    using string_unpop_all_after_pushes [of m b0 ws j] by blast
qed

theorem unpop_all_restores_all_pushed_witness:
  "length (arr_data (Fifo_array [0, 0, 0, 0 :: int])) < 2 ^ 64
   \<and> length [1, 2, 3 :: int] \<le> length (arr_data (Fifo_array [0, 0, 0, 0 :: int]))
   \<and> (\<exists>a. array_run (map Push_back [1, 2, 3] @ replicate 5 Pop_front @ [Unpop_all])
            (Fifo_array [0, 0, 0, 0 :: int]) = Some a
         \<and> unat (array_size a) = length [1, 2, 3 :: int]
         \<and> array_elements a = Some [1, 2, 3])
   \<and> (\<exists>b. string_run 10 (map Push_back ''abc'' @ replicate 2 Pop_front @ [Unpop_all])
            (string_clear \<lparr>str_data = ''xy'', offset = 1\<rparr>) = Some b
         \<and> unat (string_size b) = length ''abc'' \<and> string_view b = Some ''abc'')"
  using unpop_all_restores_all_pushed
    [of "Fifo_array [0, 0, 0, 0 :: int]" "[0, 0, 0, 0]" _ "[1, 2, 3]" 5
        10 "string_clear \<lparr>str_data = ''xy'', offset = 1\<rparr>"
        "\<lparr>str_data = ''xy'', offset = 1\<rparr>" "''abc''" 2]
  by (simp add: Fifo_array_def)

lemma array_front_back_after_pushes:
  assumes N: "length (arr_data s0) < 2 ^ 64"
    and fresh: "pop_offset s0 = 0 \<and> push_offset s0 = 0"
    and ne: "vs \<noteq> []"
    and cap: "length vs \<le> length (arr_data s0)"
  shows "\<exists>s. array_run (map Push_back vs) s0 = Some s
     \<and> array_front s = Some (hd vs) \<and> array_back s = Some (last vs)
     \<and> unat (array_size s) = length vs"
proof -
  let ?s = "s0\<lparr>arr_data := vs @ drop (length vs) (arr_data s0),
                push_offset := of_nat (length vs)\<rparr>"
  have run: "array_run (map Push_back vs) s0 = Some ?s"
    using array_run_pushes [of "arr_data s0" 0 vs "pop_offset s0"] N cap fresh
    by (cases s0) simp
  have len: "length vs < 2 ^ 64"
    using N cap by simp
  have pu: "unat (of_nat (length vs) :: size_type) = length vs"
    by (rule unat_of_nat_size_type [OF len])
  have pos: "0 < length vs"
    using ne by simp
  have dne: "arr_data s0 \<noteq> []"
    using pos cap by auto
  have fr: "array_front ?s = Some (hd vs)"
    using ne dne fresh by (simp add: array_front_def hd_conv_nth nth_append)
  have "(vs @ drop (length vs) (arr_data s0)) ! (length vs - 1) = last vs"
    using ne pos by (simp add: nth_append last_conv_nth)
  moreover have "Suc 0 \<le> length vs"
    using ne by (cases vs) simp_all
  ultimately have bk: "array_back ?s = Some (last vs)"
    using cap by (simp add: array_back_def pu)
  have sz: "unat (array_size ?s) = length vs"
    using fresh pu by (simp add: array_size_def)
  from run fr bk sz show ?thesis by blast
qed

lemma string_front_back_after_pushes:
  assumes N: "m < 2 ^ 64"
    and fresh: "str_data s0 = [] \<and> offset s0 = 0"
    and ne: "vs \<noteq> []"
    and cap: "length vs \<le> m"
  shows "\<exists>s. string_run m (map Push_back vs) s0 = Some s
     \<and> string_front s = Some (hd vs) \<and> string_back s = Some (last vs)
     \<and> unat (string_size s) = length vs"
proof -
  let ?s = "s0\<lparr>str_data := vs\<rparr>"
  have run: "string_run m (map Push_back vs) s0 = Some ?s"
    using string_run_pushes [of s0 vs m] cap fresh by simp
  have len: "length vs < 2 ^ 64"
    using N cap by simp
  have fr: "string_front ?s = Some (hd vs)"
    using ne fresh by (simp add: string_front_def hd_conv_nth)
  have bk: "string_back ?s = Some (last vs)"
    using ne by (simp add: string_back_def)
  have sz: "unat (string_size ?s) = length vs"
    using fresh by (simp add: string_size_def string_length_def unat_of_nat_size_type [OF len])
  from run fr bk sz show ?thesis by blast
qed

text \<open>
  C6. For every \<open>k \<ge> 1\<close> (with \<open>k \<le> N\<close> for the fixed adapter), after \<open>k\<close> calls of
  \<open>push_back\<close> with values \<open>v1 .. vk\<close> on an empty adapter (constructed or cleared) and no
  pop, \<open>front()\<close> is \<open>v1\<close>, \<open>back()\<close> is \<open>vk\<close> and \<open>size()\<close> is \<open>k\<close>.
\<close>

theorem front_back_after_pushes:
  "(length (arr_data a0) < 2 ^ 64 \<and> (a0 = Fifo_array init \<or> a0 = array_clear a')
      \<and> vs \<noteq> [] \<and> length vs \<le> length (arr_data a0) \<longrightarrow>
      (\<exists>a. array_run (map Push_back vs) a0 = Some a
         \<and> array_front a = Some (hd vs) \<and> array_back a = Some (last vs)
         \<and> unat (array_size a) = length vs))
   \<and> (m < 2 ^ 64 \<and> (b0 = Basic_fifo_string [] \<or> b0 = string_clear b')
      \<and> ws \<noteq> [] \<and> length ws \<le> m \<longrightarrow>
      (\<exists>b. string_run m (map Push_back ws) b0 = Some b
         \<and> string_front b = Some (hd ws) \<and> string_back b = Some (last ws)
         \<and> unat (string_size b) = length ws))"
proof (intro conjI impI)
  assume h: "length (arr_data a0) < 2 ^ 64 \<and> (a0 = Fifo_array init \<or> a0 = array_clear a')
      \<and> vs \<noteq> [] \<and> length vs \<le> length (arr_data a0)"
  then have "pop_offset a0 = 0 \<and> push_offset a0 = 0"
    by (auto simp: Fifo_array_def array_clear_def)
  with h show "\<exists>a. array_run (map Push_back vs) a0 = Some a
         \<and> array_front a = Some (hd vs) \<and> array_back a = Some (last vs)
         \<and> unat (array_size a) = length vs"
    using array_front_back_after_pushes [of a0 vs] by blast
next
  assume h: "m < 2 ^ 64 \<and> (b0 = Basic_fifo_string [] \<or> b0 = string_clear b')
      \<and> ws \<noteq> [] \<and> length ws \<le> m"
  then have "str_data b0 = [] \<and> offset b0 = 0"
    by (auto simp: Basic_fifo_string_def string_clear_def)
  with h show "\<exists>b. string_run m (map Push_back ws) b0 = Some b
         \<and> string_front b = Some (hd ws) \<and> string_back b = Some (last ws)
         \<and> unat (string_size b) = length ws"
    using string_front_back_after_pushes [of m b0 ws] by blast
qed

theorem front_back_after_pushes_witness:
  "length (arr_data (Fifo_array [0, 0, 0, 0 :: int])) < 2 ^ 64
   \<and> length [1, 2, 3 :: int] \<le> length (arr_data (Fifo_array [0, 0, 0, 0 :: int]))
   \<and> (\<exists>a. array_run (map Push_back [1, 2, 3]) (Fifo_array [0, 0, 0, 0 :: int]) = Some a
         \<and> array_front a = Some 1 \<and> array_back a = Some 3
         \<and> unat (array_size a) = length [1, 2, 3 :: int])
   \<and> (\<exists>b. string_run 10 (map Push_back ''abc'') (Basic_fifo_string []) = Some b
         \<and> string_front b = Some CHR ''a'' \<and> string_back b = Some CHR ''c''
         \<and> unat (string_size b) = length ''abc'')"
  using front_back_after_pushes
    [of "Fifo_array [0, 0, 0, 0 :: int]" "[0, 0, 0, 0]" _ "[1, 2, 3]"
        10 "Basic_fifo_string []" _ "''abc''"]
  by (simp add: Fifo_array_def)

section \<open>Swap\<close>

lemma array_swap_eq: "array_swap a b = (b, a)"
  by (simp add: array_swap_def)

lemma string_swap_eq: "string_swap c d = (d, c)"
  by (simp add: string_swap_def)

text \<open>
  C7. For every pair of adapters of the same type, \<open>swap\<close> exchanges their whole state
  (storage and cursors): afterwards \<open>front()\<close>, \<open>back()\<close>, \<open>size()\<close> and the element
  sequence of each are those of the other before the call, and a second swap restores
  both.
\<close>

theorem swap_exchanges_state:
  "array_swap a b = (b, a)
   \<and> (case array_swap a b of (a', b') \<Rightarrow>
        array_front a' = array_front b \<and> array_back a' = array_back b
        \<and> array_size a' = array_size b \<and> array_elements a' = array_elements b
        \<and> array_front b' = array_front a \<and> array_back b' = array_back a
        \<and> array_size b' = array_size a \<and> array_elements b' = array_elements a
        \<and> array_swap a' b' = (a, b))
   \<and> string_swap c d = (d, c)
   \<and> (case string_swap c d of (c', d') \<Rightarrow>
        string_front c' = string_front d \<and> string_back c' = string_back d
        \<and> string_size c' = string_size d \<and> string_view c' = string_view d
        \<and> string_front d' = string_front c \<and> string_back d' = string_back c
        \<and> string_size d' = string_size c \<and> string_view d' = string_view c
        \<and> string_swap c' d' = (c, d))"
  by (simp add: array_swap_eq string_swap_eq)

section \<open>The offset of the growable adapter stays within the string\<close>

text \<open>
  A \<open>std::basic_string\<close> stores a terminator after its \<open>size()\<close> elements, so its
  \<open>max_size()\<close> is below the largest \<open>size_type\<close> value: \<open>max_size + 1 < 2^64\<close>.
\<close>

lemma string_inv_Basic_fifo_string:
  "length init \<le> m \<Longrightarrow> string_inv m (Basic_fifo_string init)"
  by (simp add: string_inv_def Basic_fifo_string_def)

lemma string_inv_push_back:
  "string_inv m s \<Longrightarrow> string_push_back m v s = Some s' \<Longrightarrow> string_inv m s'"
  by (auto simp: string_inv_def string_push_back_def split: if_splits)

lemma string_inv_pop_front:
  assumes "m < 2 ^ 64" and "string_inv m s"
  shows "string_inv m (string_pop_front s)"
proof -
  from assms have len: "length (str_data s) < 2 ^ 64"
    by (simp add: string_inv_def)
  have "unat (min (offset s + 1) (string_length s)) \<le> unat (string_length s)"
    by (simp add: unat_min_size_type)
  then have "unat (offset (string_pop_front s)) \<le> length (str_data s)"
    by (simp add: string_pop_front_def string_length_def unat_of_nat_size_type [OF len])
  then show ?thesis
    using assms(2) by (simp add: string_inv_def string_pop_front_def)
qed

lemma string_inv_unpop_front:
  "string_inv m s \<Longrightarrow> string_inv m (string_unpop_front s)"
  by (auto simp: string_inv_def string_unpop_front_def unat_pred_size_type)

lemma string_inv_unpop_all: "string_inv m s \<Longrightarrow> string_inv m (string_unpop_all s)"
  by (simp add: string_inv_def string_unpop_all_def)

lemma string_inv_clear: "string_inv m (string_clear s)"
  by (simp add: string_inv_def string_clear_def)

lemma string_inv_step:
  assumes "m < 2 ^ 64" and "string_inv m s" and "string_step m c s = Some s'"
  shows "string_inv m s'"
proof (cases c)
  case (Push_back v)
  with assms show ?thesis by (simp add: string_inv_push_back)
next
  case Pop_front
  with assms show ?thesis by (auto simp: string_inv_pop_front)
next
  case Unpop_front
  with assms show ?thesis by (auto simp: string_inv_unpop_front)
next
  case Unpop_all
  with assms show ?thesis by (auto simp: string_inv_unpop_all)
next
  case Clear
  with assms show ?thesis by (auto simp: string_inv_clear)
qed

lemma string_inv_pair_step:
  assumes "m < 2 ^ 64" and "string_inv m a" and "string_inv m b"
    and "string_pair_step m c (a, b) = Some (a', b')"
  shows "string_inv m a' \<and> string_inv m b'"
proof (cases c)
  case (On_lhs x)
  with assms(2-4) show ?thesis
    using string_inv_step [OF assms(1), of a x]
    by (auto split: option.splits)
next
  case (On_rhs x)
  with assms(2-4) show ?thesis
    using string_inv_step [OF assms(1), of b x]
    by (auto split: option.splits)
next
  case Swap
  with assms show ?thesis
    by (simp add: string_swap_eq)
qed

lemma string_inv_pair_run:
  assumes "m < 2 ^ 64"
  shows "string_inv m a \<Longrightarrow> string_inv m b \<Longrightarrow> string_pair_run m cs (a, b) = Some (a', b')
    \<Longrightarrow> string_inv m a' \<and> string_inv m b'"
proof (induction cs arbitrary: a b)
  case Nil
  then show ?case by simp
next
  case (Cons c cs)
  from Cons.prems(3) obtain a1 b1 where
    st: "string_pair_step m c (a, b) = Some (a1, b1)"
    and rest: "string_pair_run m cs (a1, b1) = Some (a', b')"
    by (auto split: option.splits)
  from string_inv_pair_step [OF assms Cons.prems(1,2) st]
  have "string_inv m a1" and "string_inv m b1" by simp_all
  then show ?case
    using Cons.IH rest by blast
qed

lemma string_size_no_wrap:
  assumes "m < 2 ^ 64" and "string_inv m s"
  shows "unat (string_size s) = length (str_data s) - unat (offset s)"
proof -
  from assms have len: "length (str_data s) < 2 ^ 64"
    by (simp add: string_inv_def)
  have "unat (offset s) \<le> unat (string_length s)"
    using assms(2) by (simp add: string_inv_def string_length_def unat_of_nat_size_type [OF len])
  then have "unat (string_size s) = unat (string_length s) - unat (offset s)"
    by (simp add: string_size_def unat_diff_size_type)
  then show ?thesis
    by (simp add: string_length_def unat_of_nat_size_type [OF len])
qed

lemma string_pop_front_empty:
  assumes m: "m + 1 < 2 ^ 64" and inv: "string_inv m s" and e: "string_empty s"
  shows "string_pop_front s = s"
proof -
  from m inv have len: "length (str_data s) < 2 ^ 64"
    by (simp add: string_inv_def)
  from e have eq: "string_length s = offset s"
    by (simp add: string_empty_def string_size_def)
  then have "unat (offset s) = length (str_data s)"
    using unat_of_nat_size_type [OF len] by (simp add: string_length_def)
  with m inv have "unat (offset s) + 1 < 2 ^ 64"
    by (simp add: string_inv_def)
  then have "unat (offset s + 1) = unat (offset s) + 1"
    by (rule unat_succ_size_type)
  then have "offset s \<le> offset s + 1"
    by (simp add: word_le_nat_alt)
  then have "min (offset s + 1) (offset s) = offset s"
    by (simp add: min_def)
  then show ?thesis
    by (simp add: string_pop_front_def eq)
qed

text \<open>
  C9. In the growable adapter \<open>offset \<le> length(storage)\<close> holds after construction and
  is preserved by every operation (\<open>push_back\<close>, \<open>pop_front\<close>, \<open>unpop_front\<close>, \<open>unpop_all\<close>,
  \<open>clear\<close>, \<open>swap\<close>), hence in every state that two adapters reach by any sequence of
  calls; so \<open>size() = length(storage) - offset\<close> never wraps around, and \<open>pop_front\<close> on an
  empty adapter leaves the state as it is.
\<close>

theorem string_offset_within_length:
  assumes "max_size + 1 < 2 ^ 64"
  shows
  "(length init \<le> max_size \<longrightarrow> string_inv max_size (Basic_fifo_string init))
   \<and> (string_inv max_size a \<and> string_inv max_size b
        \<and> string_pair_step max_size c (a, b) = Some (a', b') \<longrightarrow>
        string_inv max_size a' \<and> string_inv max_size b')
   \<and> (length ia \<le> max_size \<and> length ib \<le> max_size
        \<and> string_pair_run max_size cs (Basic_fifo_string ia, Basic_fifo_string ib)
            = Some (ra, rb) \<longrightarrow>
        string_inv max_size ra \<and> string_inv max_size rb)
   \<and> (string_inv max_size s \<longrightarrow>
        unat (offset s) \<le> length (str_data s)
        \<and> unat (string_size s) = length (str_data s) - unat (offset s)
        \<and> unat (string_size s) \<le> length (str_data s))
   \<and> (string_inv max_size s \<and> string_empty s \<longrightarrow> string_pop_front s = s)"
proof -
  from assms have m: "max_size < 2 ^ 64" by simp
  have c1: "length init \<le> max_size \<longrightarrow> string_inv max_size (Basic_fifo_string init)"
    by (simp add: string_inv_Basic_fifo_string)
  have c2: "string_inv max_size a \<and> string_inv max_size b
        \<and> string_pair_step max_size c (a, b) = Some (a', b') \<longrightarrow>
        string_inv max_size a' \<and> string_inv max_size b'"
    using string_inv_pair_step [OF m] by blast
  have c3: "length ia \<le> max_size \<and> length ib \<le> max_size
        \<and> string_pair_run max_size cs (Basic_fifo_string ia, Basic_fifo_string ib)
            = Some (ra, rb) \<longrightarrow>
        string_inv max_size ra \<and> string_inv max_size rb"
    using string_inv_pair_run [OF m, of "Basic_fifo_string ia" "Basic_fifo_string ib" cs ra rb]
    by (simp add: string_inv_Basic_fifo_string)
  have c4: "string_inv max_size s \<longrightarrow>
        unat (offset s) \<le> length (str_data s)
        \<and> unat (string_size s) = length (str_data s) - unat (offset s)
        \<and> unat (string_size s) \<le> length (str_data s)"
    using string_size_no_wrap [OF m, of s] by (simp add: string_inv_def)
  have c5: "string_inv max_size s \<and> string_empty s \<longrightarrow> string_pop_front s = s"
    using string_pop_front_empty [OF assms] by blast
  from c1 c2 c3 c4 c5 show ?thesis by blast
qed

theorem string_offset_within_length_witness:
  "(10 :: nat) + 1 < 2 ^ 64
   \<and> string_inv 10 (Basic_fifo_string ''ab'')
   \<and> string_inv 10 \<lparr>str_data = ''ab'', offset = 2\<rparr>
   \<and> string_inv 10 \<lparr>str_data = ''xyz'', offset = 1\<rparr>
   \<and> string_pair_step 10 (On_lhs (Push_back CHR ''c''))
        (\<lparr>str_data = ''ab'', offset = 2\<rparr>, \<lparr>str_data = ''xyz'', offset = 1\<rparr>)
        = Some (\<lparr>str_data = ''abc'', offset = 2\<rparr>, \<lparr>str_data = ''xyz'', offset = 1\<rparr>)
   \<and> string_inv 10 \<lparr>str_data = ''abc'', offset = 2\<rparr>
   \<and> string_pair_run 10 [On_lhs Pop_front, On_lhs Pop_front, On_lhs Pop_front, Swap,
          On_lhs (Push_back CHR ''z''), On_rhs Unpop_front, On_rhs Clear]
        (Basic_fifo_string ''ab'', Basic_fifo_string ''xy'')
        = Some (\<lparr>str_data = ''xyz'', offset = 0\<rparr>, \<lparr>str_data = [], offset = 0\<rparr>)
   \<and> string_inv 10 \<lparr>str_data = ''xyz'', offset = 0\<rparr>
   \<and> string_inv 10 \<lparr>str_data = [] :: string, offset = 0\<rparr>
   \<and> string_empty \<lparr>str_data = ''ab'', offset = 2\<rparr>
   \<and> unat (string_size \<lparr>str_data = ''ab'', offset = 2\<rparr>) = 2 - 2
   \<and> string_pop_front \<lparr>str_data = ''ab'', offset = 2\<rparr> = \<lparr>str_data = ''ab'', offset = 2\<rparr>"
  using string_offset_within_length
    [of 10 "''ab''" "\<lparr>str_data = ''ab'', offset = 2\<rparr>" "\<lparr>str_data = ''xyz'', offset = 1\<rparr>"
        "On_lhs (Push_back CHR ''c'')"
        "\<lparr>str_data = ''abc'', offset = 2\<rparr>" "\<lparr>str_data = ''xyz'', offset = 1\<rparr>"
        "''ab''" "''xy''"
        "[On_lhs Pop_front, On_lhs Pop_front, On_lhs Pop_front, Swap,
          On_lhs (Push_back CHR ''z''), On_rhs Unpop_front, On_rhs Clear]"
        "\<lparr>str_data = ''xyz'', offset = 0\<rparr>" "\<lparr>str_data = [], offset = 0\<rparr>"
        "\<lparr>str_data = ''ab'', offset = 2\<rparr>"]
  by (simp add: string_inv_def string_push_back_def string_pop_front_def
      string_unpop_front_def string_clear_def string_swap_eq Basic_fifo_string_def
      string_length_def string_empty_def string_size_def)

section \<open>Frame properties of the fixed adapter\<close>

text \<open>
  C8. In the fixed adapter, for every state, \<open>clear()\<close> sets both \<open>pop_offset\<close> and
  \<open>push_offset\<close> to zero and leaves the underlying storage array as it was (no element is
  erased or overwritten); afterwards \<open>size()\<close> is 0 and \<open>empty()\<close> is true.
\<close>

theorem array_clear_resets_offsets_only:
  "pop_offset (array_clear s) = 0 \<and> push_offset (array_clear s) = 0
   \<and> arr_data (array_clear s) = arr_data s
   \<and> array_size (array_clear s) = 0 \<and> array_empty (array_clear s)"
  by (simp add: array_clear_def array_size_def array_empty_def)

text \<open>
  C10. In the fixed adapter, for every state, each of \<open>pop_front\<close>, \<open>unpop_front\<close> and
  \<open>unpop_all\<close> changes the pop offset only: the push offset and the whole underlying
  storage array are as before.
\<close>

theorem array_pop_operations_frame:
  "push_offset (array_pop_front s) = push_offset s
   \<and> arr_data (array_pop_front s) = arr_data s
   \<and> push_offset (array_unpop_front s) = push_offset s
   \<and> arr_data (array_unpop_front s) = arr_data s
   \<and> push_offset (array_unpop_all s) = push_offset s
   \<and> arr_data (array_unpop_all s) = arr_data s"
  by (simp add: array_pop_front_def array_unpop_front_def array_unpop_all_def)

end
